theory Spec2Isabelle
  imports Complex_Main
begin

section \<open>Elevation lookup in local DEM tiles (tools/dem\_manager.py)\<close>

text \<open>
  The module holds two classes: \<^verbatim>\<open>DEMTile\<close>, one opened GeoTIFF with its footprint in
  WGS84 and a nearest-pixel elevation read, and \<^verbatim>\<open>DEMManager\<close>, which picks the tiles
  of a folder that are relevant for a batch of points and answers elevation queries.

  Conventions of the embedding.
  \<^item> Python floats are real numbers: rounding of the floating-point operations,
    infinities and NaN are not represented.
  \<^item> Python strings are \<open>string\<close>; file names are taken to be ASCII, so \<^verbatim>\<open>\d\<close> is
    the class of the ten ASCII digits.
  \<^item> A raised exception is the \<open>Inl\<close> branch of a sum; \<^verbatim>\<open>None\<close> is \<open>None\<close>.
  \<^item> GDAL and OSR are collaborators: an opened dataset is a record of what the code
    reads from it, and the file system is a record of the folder listing and of
    \<^verbatim>\<open>gdal.Open\<close>.
\<close>

subsection \<open>Exceptions\<close>

datatype error =
    OpenFailed          \<comment> \<open>RuntimeError: \<^verbatim>\<open>gdal.Open\<close> raised or returned no dataset\<close>
  | TransformFailed     \<comment> \<open>RuntimeError raised by \<^verbatim>\<open>TransformPoint\<close>\<close>
  | ValueError          \<comment> \<open>\<^verbatim>\<open>min\<close>/\<open>max\<close> of an empty list, \<^verbatim>\<open>float\<close> of a malformed string\<close>
  | ZeroDivisionError   \<comment> \<open>float division by zero\<close>
  | IndexError          \<comment> \<open>list index out of range\<close>

subsection \<open>The collaborators\<close>

record raster =
  GetGeoTransform :: "real \<times> real \<times> real \<times> real \<times> real \<times> real"
  RasterXSize :: int
  RasterYSize :: int
  authority_code :: "int option"
    \<comment> \<open>\<^verbatim>\<open>int(proj.GetAttrValue("AUTHORITY", 1))\<close>, \<open>None\<close> when that raises\<close>
  from_wgs84 :: "real \<Rightarrow> real \<Rightarrow> (real \<times> real) option"
    \<comment> \<open>\<^verbatim>\<open>CoordinateTransformation(wgs84, proj).TransformPoint\<close>; \<open>None\<close> when it raises\<close>
  into_wgs84 :: "real \<Rightarrow> real \<Rightarrow> (real \<times> real) option"
    \<comment> \<open>\<^verbatim>\<open>CoordinateTransformation(proj, wgs84).TransformPoint\<close>; \<open>None\<close> when it raises\<close>
  GetNoDataValue :: "real option"
  ReadAsArray :: "int \<Rightarrow> int \<Rightarrow> real option"
    \<comment> \<open>\<^verbatim>\<open>band.ReadAsArray(px, py, 1, 1)\<close>: the one value read, or \<open>None\<close>\<close>

record filesystem =
  glob_tif :: "string \<Rightarrow> string list"
    \<comment> \<open>names of the files that \<^verbatim>\<open>Path(folder).glob("*.tif")\<close> yields, in its order\<close>
  gdal_Open :: "string \<Rightarrow> raster option"

text \<open>A \<^verbatim>\<open>Path\<close> below the folder is kept as its file name; \<^verbatim>\<open>str(path)\<close> joins the two.\<close>

definition str_path :: "string \<Rightarrow> string \<Rightarrow> string" where
  "str_path folder name = folder @ ''/'' @ name"

subsection \<open>DEMTile\<close>

record DEMTile =
  path :: string
  ds :: raster
  gt :: "real \<times> real \<times> real \<times> real \<times> real \<times> real"
  rx :: int
  ry :: int
  epsg :: "int option"
  need_transform :: bool
  minlon :: real
  maxlon :: real
  minlat :: real
  maxlat :: real
  nodata :: "real option"

text \<open>The list comprehension over the corners: the first transformation that raises ends it.\<close>

fun transform_corners ::
  "(real \<Rightarrow> real \<Rightarrow> (real \<times> real) option) \<Rightarrow> (real \<times> real) list \<Rightarrow> error + (real \<times> real) list" where
  "transform_corners f [] = Inr []"
| "transform_corners f ((cx, cy) # cs) =
     (case f cx cy of
        None \<Rightarrow> Inl TransformFailed
      | Some c \<Rightarrow> (case transform_corners f cs of Inl e \<Rightarrow> Inl e | Inr cs' \<Rightarrow> Inr (c # cs')))"

fun py_min :: "real list \<Rightarrow> error + real" where
  "py_min [] = Inl ValueError"
| "py_min (x # xs) = Inr (foldl min x xs)"

fun py_max :: "real list \<Rightarrow> error + real" where
  "py_max [] = Inl ValueError"
| "py_max (x # xs) = Inr (foldl max x xs)"

definition DEMTile_init :: "filesystem \<Rightarrow> string \<Rightarrow> real \<Rightarrow> error + DEMTile" where
  "DEMTile_init fs p epsilon_deg =
     (case gdal_Open fs p of
        None \<Rightarrow> Inl OpenFailed
      | Some d \<Rightarrow>
          (case GetGeoTransform d of (x0, px_w, rot_x, y0, rot_y, px_h) \<Rightarrow>
             let w = RasterXSize d; h = RasterYSize d;
                 code = authority_code d;
                 nt = (code \<noteq> None \<and> code \<noteq> Some 4326);
                 corners = [(x0, y0),
                            (x0 + real_of_int w * px_w, y0),
                            (x0, y0 + real_of_int h * px_h),
                            (x0 + real_of_int w * px_w, y0 + real_of_int h * px_h)]
             in (case (if nt then transform_corners (into_wgs84 d) corners else Inr corners) of
                   Inl e \<Rightarrow> Inl e
                 | Inr corners_wgs \<Rightarrow>
                     (case py_min (map fst corners_wgs) of Inl e \<Rightarrow> Inl e | Inr lo_lon \<Rightarrow>
                     (case py_max (map fst corners_wgs) of Inl e \<Rightarrow> Inl e | Inr hi_lon \<Rightarrow>
                     (case py_min (map snd corners_wgs) of Inl e \<Rightarrow> Inl e | Inr lo_lat \<Rightarrow>
                     (case py_max (map snd corners_wgs) of Inl e \<Rightarrow> Inl e | Inr hi_lat \<Rightarrow>
                        Inr \<lparr> path = p, ds = d,
                              gt = GetGeoTransform d, rx = w, ry = h,
                              epsg = code, need_transform = nt,
                              minlon = lo_lon - epsilon_deg, maxlon = hi_lon + epsilon_deg,
                              minlat = lo_lat - epsilon_deg, maxlat = hi_lat + epsilon_deg,
                              nodata = GetNoDataValue d \<rparr>)))))))"

definition DEMTile_new :: "filesystem \<Rightarrow> string \<Rightarrow> error + DEMTile" where
  "DEMTile_new fs p = DEMTile_init fs p (1 / 1000000)"

definition bbox_contains :: "DEMTile \<Rightarrow> real \<Rightarrow> real \<Rightarrow> bool" where
  "bbox_contains t lat lon \<longleftrightarrow>
     (minlat t \<le> lat \<and> lat \<le> maxlat t) \<and> (minlon t \<le> lon \<and> lon \<le> maxlon t)"

text \<open>Lines 76 to 79 of \<^verbatim>\<open>DEMTile.get_elevation\<close>: the point in the tile's own CRS.\<close>

definition native_xy :: "DEMTile \<Rightarrow> real \<Rightarrow> real \<Rightarrow> error + (real \<times> real)" where
  "native_xy t lat lon =
     (if need_transform t
      then (case from_wgs84 (ds t) lon lat of None \<Rightarrow> Inl TransformFailed | Some xy \<Rightarrow> Inr xy)
      else Inr (lon, lat))"

text \<open>\<^verbatim>\<open>int(math.floor(v + 0.5))\<close>\<close>

definition round_pixel :: "real \<Rightarrow> int" where
  "round_pixel v = \<lfloor>v + 1 / 2\<rfloor>"

text \<open>Lines 81 to 84: the pixel indices. A zero pixel size makes the division raise.\<close>

definition pixel_index :: "DEMTile \<Rightarrow> real \<Rightarrow> real \<Rightarrow> error + (int \<times> int)" where
  "pixel_index t x y =
     (case gt t of (x0, px_w, rot_x, y0, rot_y, px_h) \<Rightarrow>
        if px_w = 0 then Inl ZeroDivisionError
        else let px_f = (x - x0) / px_w in
          if px_h = 0 then Inl ZeroDivisionError
          else let py_f = (y - y0) / px_h in
            Inr (round_pixel px_f, round_pixel py_f))"

text \<open>Lines 86 to 96: bounds check, read, nodata filter.\<close>

definition read_pixel :: "DEMTile \<Rightarrow> int \<Rightarrow> int \<Rightarrow> real option" where
  "read_pixel t px py =
     (if \<not> (0 \<le> px \<and> px < rx t \<and> 0 \<le> py \<and> py < ry t) then None
      else (case ReadAsArray (ds t) px py of
              None \<Rightarrow> None
            | Some z \<Rightarrow> if nodata t \<noteq> None \<and> z = the (nodata t) then None else Some z))"

definition tile_get_elevation :: "DEMTile \<Rightarrow> real \<Rightarrow> real \<Rightarrow> error + real option" where
  "tile_get_elevation t lat lon =
     (case native_xy t lat lon of
        Inl e \<Rightarrow> Inl e
      | Inr (x, y) \<Rightarrow>
          (case pixel_index t x y of
             Inl e \<Rightarrow> Inl e
           | Inr (px, py) \<Rightarrow> Inr (read_pixel t px py)))"

subsection \<open>DEMManager: the query\<close>

record DEMManager =
  dem_folder :: string
  tiles :: "DEMTile list"

fun probe_tiles :: "DEMTile list \<Rightarrow> real \<Rightarrow> real \<Rightarrow> error + real option" where
  "probe_tiles [] lat lon = Inr None"
| "probe_tiles (t # ts) lat lon =
     (if bbox_contains t lat lon
      then (case tile_get_elevation t lat lon of
              Inl e \<Rightarrow> Inl e
            | Inr (Some elev) \<Rightarrow> Inr (Some elev)
            | Inr None \<Rightarrow> probe_tiles ts lat lon)
      else probe_tiles ts lat lon)"

definition get_elevation :: "DEMManager \<Rightarrow> real \<Rightarrow> real \<Rightarrow> error + real option" where
  "get_elevation m lat lon = probe_tiles (tiles m) lat lon"

subsection \<open>The two file-name patterns\<close>

text \<open>
  \<^verbatim>\<open>re.match\<close> is a backtracking matcher anchored at the start of the name. The two
  patterns of the module are built from literal characters, \<^verbatim>\<open>.*?\<close>, a greedy \<^verbatim>\<open>+\<close> over
  a character class (captured or not) and a final \<^verbatim>\<open>$\<close>; the matcher below tries the
  alternatives in the order \<^verbatim>\<open>re\<close> tries them and returns the groups of the first
  match.
\<close>

datatype cls = AnyChar | Digit | DigitDot

definition is_digit :: "char \<Rightarrow> bool" where
  "is_digit c \<longleftrightarrow> c \<in> set ''0123456789''"

fun in_cls :: "cls \<Rightarrow> char \<Rightarrow> bool" where
  "in_cls AnyChar c = (c \<noteq> CHR 0x0A)"
| "in_cls Digit c = is_digit c"
| "in_cls DigitDot c = (is_digit c \<or> c = CHR ''.'')"

datatype tok =
    Lit char          \<comment> \<open>one literal character\<close>
  | LazyStar cls      \<comment> \<open>\<^verbatim>\<open>C*?\<close>\<close>
  | Plus bool cls     \<comment> \<open>\<^verbatim>\<open>C+\<close>, in a capturing group when the flag is set\<close>
  | Eol               \<comment> \<open>\<^verbatim>\<open>$\<close>: the end of the string, or just before a final newline\<close>

fun rmatch :: "tok list \<Rightarrow> string \<Rightarrow> string list option" where
  "rmatch [] s = Some []"
| "rmatch (Lit c # ts) [] = None"
| "rmatch (Lit c # ts) (x # xs) = (if x = c then rmatch ts xs else None)"
| "rmatch (Eol # ts) s = (if s = [] \<or> s = [CHR 0x0A] then rmatch ts s else None)"
| "rmatch (LazyStar k # ts) [] = rmatch ts []"
| "rmatch (LazyStar k # ts) (x # xs) =
     (case rmatch ts (x # xs) of
        Some gs \<Rightarrow> Some gs
      | None \<Rightarrow> if in_cls k x then rmatch (LazyStar k # ts) xs else None)"
| "rmatch (Plus cap k # ts) [] = None"
| "rmatch (Plus cap k # ts) (x # xs) =
     (if \<not> in_cls k x then None
      else (case rmatch (Plus cap k # ts) xs of
              Some gs \<Rightarrow> Some (if cap then (x # hd gs) # tl gs else gs)
            | None \<Rightarrow>
                (case rmatch ts xs of
                   Some gs \<Rightarrow> Some (if cap then [x] # gs else gs)
                 | None \<Rightarrow> None)))"

fun is_group :: "tok \<Rightarrow> bool" where
  "is_group (Plus cap k) = cap"
| "is_group _ = False"

definition lits :: "string \<Rightarrow> tok list" where
  "lits s = map Lit s"

text \<open>\<^verbatim>\<open>.*?_(\d+)-(\d+)_([\d\.]+)_\d+_\d+\.tif$\<close>\<close>

definition swisstopo_pattern :: "tok list" where
  "swisstopo_pattern =
     [LazyStar AnyChar, Lit CHR ''_'', Plus True Digit, Lit CHR ''-'', Plus True Digit,
      Lit CHR ''_'', Plus True DigitDot, Lit CHR ''_'', Plus False Digit, Lit CHR ''_'',
      Plus False Digit] @ lits ''.tif'' @ [Eol]"

text \<open>\<^verbatim>\<open>ASTGTMV\d+_N(\d+)E(\d+)_dem\.tif$\<close>\<close>

definition aster_pattern :: "tok list" where
  "aster_pattern =
     lits ''ASTGTMV'' @ [Plus False Digit] @ lits ''_N'' @ [Plus True Digit, Lit CHR ''E'',
      Plus True Digit] @ lits ''_dem.tif'' @ [Eol]"

text \<open>\<^verbatim>\<open>int\<close> of a string of digits.\<close>

definition digit_val :: "char \<Rightarrow> nat" where
  "digit_val c = of_char c - 48"

definition py_int :: "string \<Rightarrow> int" where
  "py_int s = int (foldl (\<lambda>n c. 10 * n + digit_val c) 0 s)"

text \<open>
  \<^verbatim>\<open>float\<close> of a string. Of the strings made of digits and dots, Python accepts those with
  at most one dot and at least one digit; every other string made of these characters
  raises ValueError.
\<close>

definition py_float :: "string \<Rightarrow> error + real" where
  "py_float s =
     (let a = takeWhile is_digit s; r = dropWhile is_digit s in
      case r of
        [] \<Rightarrow> if a = [] then Inl ValueError else Inr (real_of_int (py_int a))
      | c # b \<Rightarrow>
          if c = CHR ''.'' \<and> list_all is_digit b \<and> (a \<noteq> [] \<or> b \<noteq> [])
          then Inr (real_of_int (py_int a) + real_of_int (py_int b) / 10 ^ length b)
          else Inl ValueError)"

record swiss_info =
  ix :: int
  iy :: int
  res :: real

record aster_info =
  a_minlat :: int
  a_maxlat :: int
  a_minlon :: int
  a_maxlon :: int
  a_res :: real

definition parse_swisstopo_name :: "string \<Rightarrow> error + swiss_info option" where
  "parse_swisstopo_name name =
     (case rmatch swisstopo_pattern name of
        None \<Rightarrow> Inr None
      | Some m \<Rightarrow>
          (case py_float (m ! 2) of
             Inl e \<Rightarrow> Inl e
           | Inr r \<Rightarrow> Inr (Some \<lparr> ix = py_int (m ! 0), iy = py_int (m ! 1), res = r \<rparr>)))"

definition parse_aster_name :: "string \<Rightarrow> aster_info option" where
  "parse_aster_name name =
     (case rmatch aster_pattern name of
        None \<Rightarrow> None
      | Some m \<Rightarrow>
          (let lat = py_int (m ! 0); lon = py_int (m ! 1) in
           Some \<lparr> a_minlat = lat, a_maxlat = lat + 1, a_minlon = lon, a_maxlon = lon + 1,
                  a_res = 30 \<rparr>))"

subsection \<open>DEMManager: loading the tiles of a batch\<close>

text \<open>
  \<^verbatim>\<open>swiss_groups\<close> is a dict from grid cell to the list of (resolution, path), in
  insertion order: an association list. \<^verbatim>\<open>setdefault(key, []).append(v)\<close> keeps the place
  of a key that is there and puts a new key last.
\<close>

type_synonym groups = "((int \<times> int) \<times> (real \<times> string) list) list"

fun setdefault_append :: "'k \<Rightarrow> 'v \<Rightarrow> ('k \<times> 'v list) list \<Rightarrow> ('k \<times> 'v list) list" where
  "setdefault_append key v [] = [(key, [v])]"
| "setdefault_append key v ((k, vs) # g) =
     (if k = key then (k, vs @ [v]) # g else (k, vs) # setdefault_append key v g)"

text \<open>Lines 118 to 128: the loop over the listing.\<close>

fun classify_files ::
  "string list \<Rightarrow> groups \<Rightarrow> (aster_info \<times> string) list
     \<Rightarrow> error + (groups \<times> (aster_info \<times> string) list)" where
  "classify_files [] swiss_groups aster_tiles = Inr (swiss_groups, aster_tiles)"
| "classify_files (name # rest) swiss_groups aster_tiles =
     (case parse_swisstopo_name name of
        Inl e \<Rightarrow> Inl e
      | Inr (Some info_swiss) \<Rightarrow>
          classify_files rest
            (setdefault_append (ix info_swiss, iy info_swiss) (res info_swiss, name) swiss_groups)
            aster_tiles
      | Inr None \<Rightarrow>
          (case parse_aster_name name of
             Some info_aster \<Rightarrow> classify_files rest swiss_groups (aster_tiles @ [(info_aster, name)])
           | None \<Rightarrow> classify_files rest swiss_groups aster_tiles))"

text \<open>The box of the batch: (minlat, maxlat, minlon, maxlon).\<close>

type_synonym box = "real \<times> real \<times> real \<times> real"

definition tile_overlaps :: "DEMTile \<Rightarrow> box \<Rightarrow> bool" where
  "tile_overlaps t b =
     (case b of (lo_lat, hi_lat, lo_lon, hi_lon) \<Rightarrow>
        \<not> (maxlat t < lo_lat \<or> minlat t > hi_lat \<or> maxlon t < lo_lon \<or> minlon t > hi_lon))"

definition aster_overlaps :: "aster_info \<Rightarrow> box \<Rightarrow> bool" where
  "aster_overlaps info b =
     (case b of (lo_lat, hi_lat, lo_lon, hi_lon) \<Rightarrow>
        \<not> (real_of_int (a_maxlat info) < lo_lat \<or> real_of_int (a_minlat info) > hi_lat \<or>
           real_of_int (a_maxlon info) < lo_lon \<or> real_of_int (a_minlon info) > hi_lon))"

text \<open>
  Every function that opens files threads the list of the paths given to
  \<^verbatim>\<open>gdal.Open\<close> so far, in call order.
\<close>

text \<open>Lines 133 to 139: the finest file of every cell is opened and kept when it overlaps.\<close>

fun select_finest ::
  "filesystem \<Rightarrow> string \<Rightarrow> box \<Rightarrow> groups \<Rightarrow> string list \<Rightarrow> string list
     \<Rightarrow> (error + string list) \<times> string list" where
  "select_finest fs folder b [] chosen_paths opened = (Inr chosen_paths, opened)"
| "select_finest fs folder b ((key, entries) # rest) chosen_paths opened =
     (case sort_key fst entries of
        [] \<Rightarrow> (Inl IndexError, opened)
      | e # _ \<Rightarrow>
          (let finest_path = snd e in
           case DEMTile_new fs (str_path folder finest_path) of
             Inl err \<Rightarrow> (Inl err, opened @ [str_path folder finest_path])
           | Inr t \<Rightarrow>
               select_finest fs folder b rest
                 (if tile_overlaps t b then chosen_paths @ [finest_path] else chosen_paths)
                 (opened @ [str_path folder finest_path])))"

text \<open>Lines 142 to 146: the ASTER tiles, only when nothing was chosen.\<close>

definition add_aster :: "(aster_info \<times> string) list \<Rightarrow> box \<Rightarrow> string list \<Rightarrow> string list" where
  "add_aster aster_tiles b chosen_paths =
     (if chosen_paths = []
      then chosen_paths @ map snd (filter (\<lambda>(info, p). aster_overlaps info b) aster_tiles)
      else chosen_paths)"

text \<open>Line 148: every chosen path is opened.\<close>

fun open_all ::
  "filesystem \<Rightarrow> string \<Rightarrow> string list \<Rightarrow> string list \<Rightarrow> (error + DEMTile list) \<times> string list" where
  "open_all fs folder [] opened = (Inr [], opened)"
| "open_all fs folder (p # ps) opened =
     (case DEMTile_new fs (str_path folder p) of
        Inl err \<Rightarrow> (Inl err, opened @ [str_path folder p])
      | Inr t \<Rightarrow>
          (case open_all fs folder ps (opened @ [str_path folder p]) of
             (Inl err, opened') \<Rightarrow> (Inl err, opened')
           | (Inr ts, opened') \<Rightarrow> (Inr (t # ts), opened')))"

text \<open>Lines 107 to 110.\<close>

definition batch_box :: "(real \<times> real) list \<Rightarrow> error + box" where
  "batch_box coords =
     (let lats = map fst coords; lons = map snd coords in
      (case py_min lats of Inl e \<Rightarrow> Inl e | Inr lo_lat \<Rightarrow>
      (case py_max lats of Inl e \<Rightarrow> Inl e | Inr hi_lat \<Rightarrow>
      (case py_min lons of Inl e \<Rightarrow> Inl e | Inr lo_lon \<Rightarrow>
      (case py_max lons of Inl e \<Rightarrow> Inl e | Inr hi_lon \<Rightarrow>
        Inr (lo_lat, hi_lat, lo_lon, hi_lon))))))"

text \<open>
  The outcome of a call: what it returns or raises, the paths it opened, and the manager
  afterwards (unchanged when the call raises: \<^verbatim>\<open>self.tiles\<close> is assigned in the last
  statement).
\<close>

record outcome =
  returned :: "error + DEMTile list"
  opened_paths :: "string list"
  manager :: DEMManager

definition load_tiles_for_coords ::
  "filesystem \<Rightarrow> DEMManager \<Rightarrow> (real \<times> real) list \<Rightarrow> outcome" where
  "load_tiles_for_coords fs m coords =
     (case batch_box coords of
        Inl e \<Rightarrow> \<lparr> returned = Inl e, opened_paths = [], manager = m \<rparr>
      | Inr b \<Rightarrow>
          (case classify_files (glob_tif fs (dem_folder m)) [] [] of
             Inl e \<Rightarrow> \<lparr> returned = Inl e, opened_paths = [], manager = m \<rparr>
           | Inr (swiss_groups, aster_tiles) \<Rightarrow>
               (case select_finest fs (dem_folder m) b swiss_groups [] [] of
                  (Inl e, opened) \<Rightarrow> \<lparr> returned = Inl e, opened_paths = opened, manager = m \<rparr>
                | (Inr chosen, opened) \<Rightarrow>
                    (case open_all fs (dem_folder m) (add_aster aster_tiles b chosen) opened of
                       (Inl e, opened') \<Rightarrow>
                         \<lparr> returned = Inl e, opened_paths = opened', manager = m \<rparr>
                     | (Inr ts, opened') \<Rightarrow>
                         \<lparr> returned = Inr ts, opened_paths = opened',
                           manager = m\<lparr>tiles := ts\<rparr> \<rparr>))))"

subsection \<open>Example folders\<close>

text \<open>
  A raster in LV95 (EPSG 2056) over the cell 2600-1199, one kilometre wide, with square
  pixels of the given size and the same value in every pixel. A linear map stands for the
  projection; like a real projection it is defined on a bounded area only, here the area
  of the cell.
\<close>

definition lv_raster :: "real \<Rightarrow> int \<Rightarrow> real \<Rightarrow> raster" where
  "lv_raster cell n h =
     \<lparr> GetGeoTransform = (2600000, cell, 0, 1200000, 0, - cell),
       RasterXSize = n, RasterYSize = n,
       authority_code = Some 2056,
       from_wgs84 = (\<lambda>lon lat.
          if 15 / 2 \<le> lon \<and> lon \<le> 751 / 100 \<and> 4699 / 100 \<le> lat \<and> lat \<le> 47
          then Some ((lon + 37 / 2) * 100000, (lat - 35) * 100000) else None),
       into_wgs84 = (\<lambda>x y. Some (x / 100000 - 37 / 2, y / 100000 + 35)),
       GetNoDataValue = Some (- 9999),
       ReadAsArray = (\<lambda>px py. Some h) \<rparr>"

text \<open>
  A raster in WGS84 of three by three pixels of half a degree, with pixel centres on the
  degree cell whose south-west corner is (lon0, lat1 - 1), and the same value in every
  pixel.
\<close>

definition wgs_raster :: "real \<Rightarrow> real \<Rightarrow> real \<Rightarrow> raster" where
  "wgs_raster lon0 lat1 h =
     \<lparr> GetGeoTransform = (lon0 - 1 / 4, 1 / 2, 0, lat1 + 1 / 4, 0, - 1 / 2),
       RasterXSize = 3, RasterYSize = 3,
       authority_code = Some 4326,
       from_wgs84 = (\<lambda>lon lat. Some (lon, lat)),
       into_wgs84 = (\<lambda>x y. Some (x, y)),
       GetNoDataValue = Some (- 9999),
       ReadAsArray = (\<lambda>px py. Some h) \<rparr>"

definition dem_mgr :: DEMManager where
  "dem_mgr = \<lparr> dem_folder = ''dem'', tiles = [] \<rparr>"

text \<open>One cell at two resolutions and an ASTER tile.\<close>

definition alps_fs :: filesystem where
  "alps_fs =
     \<lparr> glob_tif = (\<lambda>folder. if folder = ''dem''
          then [''swissalti3d_2019_2600-1199_2_2056_5728.tif'',
                ''swissalti3d_2019_2600-1199_0.5_2056_5728.tif'',
                ''ASTGTMV003_N46E007_dem.tif'']
          else []),
       gdal_Open = (\<lambda>p.
          if p = ''dem/swissalti3d_2019_2600-1199_2_2056_5728.tif''
            then Some (lv_raster 2 500 541)
          else if p = ''dem/swissalti3d_2019_2600-1199_0.5_2056_5728.tif''
            then Some (lv_raster (1 / 2) 2000 540)
          else if p = ''dem/ASTGTMV003_N46E007_dem.tif''
            then Some (wgs_raster 7 47 530)
          else None) \<rparr>"

definition alps_tile :: DEMTile where
  "alps_tile =
     \<lparr> path = ''dem/swissalti3d_2019_2600-1199_0.5_2056_5728.tif'',
       ds = lv_raster (1 / 2) 2000 540,
       gt = (2600000, 1 / 2, 0, 1200000, 0, - (1 / 2)), rx = 2000, ry = 2000,
       epsg = Some 2056, need_transform = True,
       minlon = 7499999 / 1000000, maxlon = 7510001 / 1000000,
       minlat = 46989999 / 1000000, maxlat = 47000001 / 1000000,
       nodata = Some (- 9999) \<rparr>"

text \<open>
  ASTER tiles only, and a file that is no tile. The tile N46E007 is void: every pixel
  holds the nodata value.
\<close>

definition aster_names :: "string list" where
  "aster_names =
     [''ASTGTMV003_N46E007_dem.tif'', ''ASTGTMV003_N46E008_dem.tif'',
      ''ASTGTMV003_N45E007_dem.tif'', ''overview.tif'']"

definition aster_fs :: filesystem where
  "aster_fs =
     \<lparr> glob_tif = (\<lambda>folder. if folder = ''dem'' then aster_names else []),
       gdal_Open = (\<lambda>p.
          if p = ''dem/ASTGTMV003_N46E007_dem.tif'' then Some (wgs_raster 7 47 (- 9999))
          else if p = ''dem/ASTGTMV003_N46E008_dem.tif'' then Some (wgs_raster 8 47 530)
          else if p = ''dem/ASTGTMV003_N45E007_dem.tif'' then Some (wgs_raster 7 46 400)
          else None) \<rparr>"

definition void_tile :: DEMTile where
  "void_tile =
     \<lparr> path = ''dem/ASTGTMV003_N46E007_dem.tif'',
       ds = wgs_raster 7 47 (- 9999),
       gt = (27 / 4, 1 / 2, 0, 189 / 4, 0, - (1 / 2)), rx = 3, ry = 3,
       epsg = Some 4326, need_transform = False,
       minlon = 27 / 4 - 1 / 1000000, maxlon = 33 / 4 + 1 / 1000000,
       minlat = 183 / 4 - 1 / 1000000, maxlat = 189 / 4 + 1 / 1000000,
       nodata = Some (- 9999) \<rparr>"

definition good_tile :: DEMTile where
  "good_tile =
     \<lparr> path = ''dem/ASTGTMV003_N46E008_dem.tif'',
       ds = wgs_raster 8 47 530,
       gt = (31 / 4, 1 / 2, 0, 189 / 4, 0, - (1 / 2)), rx = 3, ry = 3,
       epsg = Some 4326, need_transform = False,
       minlon = 31 / 4 - 1 / 1000000, maxlon = 37 / 4 + 1 / 1000000,
       minlat = 183 / 4 - 1 / 1000000, maxlat = 189 / 4 + 1 / 1000000,
       nodata = Some (- 9999) \<rparr>"


text \<open>A folder with a file whose resolution field is \<^verbatim>\<open>0.5.1\<close>.\<close>

definition odd_fs :: filesystem where
  "odd_fs =
     \<lparr> glob_tif = (\<lambda>folder. if folder = ''dem''
          then [''ASTGTMV003_N46E007_dem.tif'',
                ''swissalti3d_2019_2600-1199_0.5.1_2056_5728.tif'']
          else []),
       gdal_Open = (\<lambda>p.
          if p = ''dem/ASTGTMV003_N46E007_dem.tif'' then Some (wgs_raster 7 47 530)
          else if p = ''dem/swissalti3d_2019_2600-1199_0.5.1_2056_5728.tif''
            then Some (lv_raster (1 / 2) 2000 540)
          else None) \<rparr>"

subsection \<open>Notions used in the statements\<close>

text \<open>
  The descriptor of a fine-grid name, the entries of a grid cell among a set of names, the
  finest entry of a group (the first of the group sorted by resolution), and the names
  that the fallback selects for a box.
\<close>

definition fine_info :: "string \<Rightarrow> swiss_info option" where
  "fine_info n = (case parse_swisstopo_name n of Inr (Some i) \<Rightarrow> Some i | _ \<Rightarrow> None)"

definition cell_entries :: "string set \<Rightarrow> int \<times> int \<Rightarrow> (real \<times> string) set" where
  "cell_entries S k = {(res i, n) | i n. n \<in> S \<and> fine_info n = Some i \<and> (ix i, iy i) = k}"

definition groups_ok :: "groups \<Rightarrow> string set \<Rightarrow> bool" where
  "groups_ok g S \<longleftrightarrow>
     distinct (map fst g)
     \<and> (\<forall>(k, es) \<in> set g. es \<noteq> [] \<and> set es = cell_entries S k)
     \<and> (\<forall>n \<in> S. \<forall>i. fine_info n = Some i \<longrightarrow> (ix i, iy i) \<in> fst ` set g)"

definition is_fine :: "string \<Rightarrow> bool" where
  "is_fine n \<longleftrightarrow> (\<exists>i. parse_swisstopo_name n = Inr (Some i))"

definition finest :: "(real \<times> string) list \<Rightarrow> string" where
  "finest es = snd (hd (sort_key fst es))"

definition aster_entry :: "string \<Rightarrow> (aster_info \<times> string) option" where
  "aster_entry n =
     (if parse_swisstopo_name n = Inr None
      then (case parse_aster_name n of Some a \<Rightarrow> Some (a, n) | None \<Rightarrow> None)
      else None)"

definition coarse_hit :: "box \<Rightarrow> string \<Rightarrow> bool" where
  "coarse_hit b n \<longleftrightarrow>
     parse_swisstopo_name n = Inr None
     \<and> (case parse_aster_name n of Some a \<Rightarrow> aster_overlaps a b | None \<Rightarrow> False)"


section \<open>Properties\<close>

subsection \<open>The matcher\<close>

text \<open>A match yields one string for every capturing group of the pattern.\<close>

lemma rmatch_groups:
  "rmatch ts s = Some gs \<Longrightarrow> length gs = length (filter is_group ts)"
proof (induction ts s arbitrary: gs rule: rmatch.induct)
  case (8 cap k ts x xs)
  show ?case
  proof (cases "rmatch (Plus cap k # ts) xs")
    case None
    with "8.prems" "8.IH"(2) show ?thesis
      by (auto split: if_splits option.splits)
  next
    case (Some gs')
    with "8.prems" have k: "in_cls k x" and gs: "gs = (if cap then (x # hd gs') # tl gs' else gs')"
      by (auto split: if_splits)
    from "8.IH"(1) [OF _ Some] k
    have len: "length gs' = length (filter is_group (Plus cap k # ts))" by simp
    show ?thesis
    proof (cases cap)
      case True
      with len have "gs' \<noteq> []" by auto
      with gs len True show ?thesis by (cases gs') auto
    next
      case False
      with gs len show ?thesis by simp
    qed
  qed
qed (auto split: if_splits option.splits)

lemma swisstopo_groups: "rmatch swisstopo_pattern s = Some gs \<Longrightarrow> length gs = 3"
  by (drule rmatch_groups) (simp add: swisstopo_pattern_def lits_def)

lemma aster_groups: "rmatch aster_pattern s = Some gs \<Longrightarrow> length gs = 2"
  by (drule rmatch_groups) (simp add: aster_pattern_def lits_def)

subsection \<open>The examples, evaluated\<close>

lemmas parse_eval = parse_swisstopo_name_def parse_aster_name_def swisstopo_pattern_def
  aster_pattern_def lits_def is_digit_def py_float_def py_int_def digit_val_def

lemmas load_eval = load_tiles_for_coords_def batch_box_def str_path_def DEMTile_new_def
  DEMTile_init_def tile_overlaps_def aster_overlaps_def add_aster_def Let_def

lemmas sample_eval = get_elevation_def bbox_contains_def tile_get_elevation_def native_xy_def
  pixel_index_def round_pixel_def read_pixel_def

lemma alps_tile_new:
  "DEMTile_new alps_fs ''dem/swissalti3d_2019_2600-1199_0.5_2056_5728.tif'' = Inr alps_tile"
  by (simp add: load_eval alps_fs_def alps_tile_def lv_raster_def)

lemma void_tile_new: "DEMTile_new aster_fs ''dem/ASTGTMV003_N46E007_dem.tif'' = Inr void_tile"
  by (simp add: load_eval aster_fs_def void_tile_def wgs_raster_def)

lemma good_tile_new: "DEMTile_new aster_fs ''dem/ASTGTMV003_N46E008_dem.tif'' = Inr good_tile"
  by (simp add: load_eval aster_fs_def good_tile_def wgs_raster_def)

lemma aster_load:
  "load_tiles_for_coords aster_fs dem_mgr [(93 / 2, 79 / 10), (93 / 2, 81 / 10)] =
     \<lparr> returned = Inr [void_tile, good_tile],
       opened_paths = [''dem/ASTGTMV003_N46E007_dem.tif'', ''dem/ASTGTMV003_N46E008_dem.tif''],
       manager = \<lparr> dem_folder = ''dem'', tiles = [void_tile, good_tile] \<rparr> \<rparr>"
  by (simp add: load_eval parse_eval aster_fs_def aster_names_def dem_mgr_def void_tile_def
      good_tile_def wgs_raster_def)

lemma alps_load:
  "load_tiles_for_coords alps_fs dem_mgr [(9399 / 200, 1501 / 200)] =
     \<lparr> returned = Inr [alps_tile],
       opened_paths = [''dem/swissalti3d_2019_2600-1199_0.5_2056_5728.tif'',
                       ''dem/swissalti3d_2019_2600-1199_0.5_2056_5728.tif''],
       manager = \<lparr> dem_folder = ''dem'', tiles = [alps_tile] \<rparr> \<rparr>"
  by (simp add: load_eval parse_eval alps_fs_def dem_mgr_def alps_tile_def lv_raster_def)


lemma odd_load:
  "load_tiles_for_coords odd_fs dem_mgr [(93 / 2, 15 / 2)] =
     \<lparr> returned = Inl ValueError, opened_paths = [], manager = dem_mgr \<rparr>"
  by (simp add: load_eval parse_eval odd_fs_def dem_mgr_def)

lemma void_tile_sample: "tile_get_elevation void_tile (93 / 2) (79 / 10) = Inr None"
  by (simp add: sample_eval void_tile_def wgs_raster_def)

lemma good_tile_sample: "tile_get_elevation good_tile (93 / 2) (79 / 10) = Inr (Some 530)"
  by (simp add: sample_eval good_tile_def wgs_raster_def)

lemma alps_tile_sample: "tile_get_elevation alps_tile (9399 / 200) (1501 / 200) = Inr (Some 540)"
  by (simp add: sample_eval alps_tile_def lv_raster_def)

lemma alps_tile_margin_sample:
  "tile_get_elevation alps_tile (94000001 / 2000000) (1501 / 200) = Inl TransformFailed"
  by (simp add: sample_eval alps_tile_def lv_raster_def)

lemma alps_tile_margin_contains: "bbox_contains alps_tile (94000001 / 2000000) (1501 / 200)"
  by (simp add: sample_eval alps_tile_def lv_raster_def)

subsection \<open>The query\<close>

lemma probe_tiles_find:
  "probe_tiles ts lat lon =
     (case find (\<lambda>t. bbox_contains t lat lon \<and> tile_get_elevation t lat lon \<noteq> Inr None) ts of
        None \<Rightarrow> Inr None
      | Some t \<Rightarrow> tile_get_elevation t lat lon)"
  by (induction ts) (auto split: sum.splits option.splits)

lemma probe_tiles_skip:
  "\<forall>u\<in>set pre. bbox_contains u lat lon \<longrightarrow> tile_get_elevation u lat lon = Inr None
     \<Longrightarrow> probe_tiles (pre @ rest) lat lon = probe_tiles rest lat lon"
  by (induction pre) auto

text \<open>
  Claim C1. The query probes the loaded tiles in list order. Its result is the sample of
  the first tile that contains the point and whose sample is not "no data" (a value, or
  the exception the sample raises), and "no data" when there is no such tile. In
  particular, when every containing tile before a tile \<open>t\<close> samples "no data" and \<open>t\<close>
  contains the point and samples a value, the query returns the value of \<open>t\<close>.
\<close>

theorem query_first_value:
  "get_elevation m lat lon =
     (case find (\<lambda>t. bbox_contains t lat lon \<and> tile_get_elevation t lat lon \<noteq> Inr None) (tiles m) of
        None \<Rightarrow> Inr None
      | Some t \<Rightarrow> tile_get_elevation t lat lon)
   \<and> (tiles m = pre @ t # post
        \<and> (\<forall>u\<in>set pre. bbox_contains u lat lon \<longrightarrow> tile_get_elevation u lat lon = Inr None)
        \<and> bbox_contains t lat lon \<and> tile_get_elevation t lat lon = Inr (Some v)
      \<longrightarrow> get_elevation m lat lon = Inr (Some v))"
proof -
  have "get_elevation m lat lon = Inr (Some v)"
    if "tiles m = pre @ t # post"
      and "\<forall>u\<in>set pre. bbox_contains u lat lon \<longrightarrow> tile_get_elevation u lat lon = Inr None"
      and "bbox_contains t lat lon" and "tile_get_elevation t lat lon = Inr (Some v)"
    using that by (simp add: get_elevation_def probe_tiles_skip)
  then show ?thesis
    by (simp add: get_elevation_def probe_tiles_find)
qed

theorem query_first_value_witness:
  "tiles (manager (load_tiles_for_coords aster_fs dem_mgr [(93 / 2, 79 / 10), (93 / 2, 81 / 10)]))
     = [void_tile] @ good_tile # []
   \<and> bbox_contains void_tile (93 / 2) (79 / 10)
   \<and> tile_get_elevation void_tile (93 / 2) (79 / 10) = Inr None
   \<and> bbox_contains good_tile (93 / 2) (79 / 10)
   \<and> tile_get_elevation good_tile (93 / 2) (79 / 10) = Inr (Some 530)
   \<and> get_elevation (manager (load_tiles_for_coords aster_fs dem_mgr
         [(93 / 2, 79 / 10), (93 / 2, 81 / 10)])) (93 / 2) (79 / 10) = Inr (Some 530)"
proof -
  let ?m = "manager (load_tiles_for_coords aster_fs dem_mgr [(93 / 2, 79 / 10), (93 / 2, 81 / 10)])"
  have a: "tiles ?m = [void_tile] @ good_tile # []" by (simp add: aster_load)
  have b: "bbox_contains void_tile (93 / 2) (79 / 10)"
    by (simp add: bbox_contains_def void_tile_def)
  have c: "bbox_contains good_tile (93 / 2) (79 / 10)"
    by (simp add: bbox_contains_def good_tile_def)
  have d: "\<forall>u\<in>set [void_tile]. bbox_contains u (93 / 2) (79 / 10)
             \<longrightarrow> tile_get_elevation u (93 / 2) (79 / 10) = Inr None"
    by (simp add: void_tile_sample)
  from query_first_value [of ?m "93 / 2" "79 / 10" "[void_tile]" good_tile "[]" 530]
    a b c d void_tile_sample good_tile_sample
  show ?thesis by blast
qed

subsection \<open>The sample of one tile\<close>







subsection \<open>Loading the tiles of a batch\<close>

lemma sda_map_keys: "set (map fst (setdefault_append k v g)) = insert k (set (map fst g))"
proof (induction g)
  case Nil
  show ?case by simp
next
  case (Cons p g)
  then show ?case by (cases p) auto
qed

lemma sda_keys: "fst ` set (setdefault_append k v g) = insert k (fst ` set g)"
  using sda_map_keys [of k v g] by simp

lemma sda_distinct: "distinct (map fst g) \<Longrightarrow> distinct (map fst (setdefault_append k v g))"
proof (induction g)
  case Nil
  show ?case by simp
next
  case (Cons p g)
  then show ?case by (cases p) (auto simp: sda_keys)
qed

lemma sda_entries:
  "distinct (map fst g) \<Longrightarrow>
   (k', es) \<in> set (setdefault_append k v g) \<longleftrightarrow>
     (k' \<noteq> k \<and> (k', es) \<in> set g)
     \<or> (k' = k \<and> ((\<exists>es0. (k, es0) \<in> set g \<and> es = es0 @ [v]) \<or> (k \<notin> fst ` set g \<and> es = [v])))"
proof (induction g)
  case Nil
  then show ?case by auto
next
  case (Cons p g)
  obtain kp vp where p: "p = (kp, vp)" by (cases p)
  from Cons.prems p have nk: "kp \<notin> fst ` set g" and d: "distinct (map fst g)" by auto
  show ?case
  proof (cases "kp = k")
    case True
    with nk have "\<And>x. (k, x) \<notin> set g" by (auto simp: rev_image_eqI)
    with True p nk show ?thesis by auto
  next
    case False
    with p Cons.IH [OF d] nk show ?thesis by (auto simp: rev_image_eqI)
  qed
qed

lemma cell_entries_insert_same:
  "fine_info n = Some i \<Longrightarrow>
   cell_entries (insert n S) (ix i, iy i) = insert (res i, n) (cell_entries S (ix i, iy i))"
  by (auto simp: cell_entries_def)

lemma cell_entries_insert_other:
  "fine_info n = Some i \<Longrightarrow> k \<noteq> (ix i, iy i) \<Longrightarrow> cell_entries (insert n S) k = cell_entries S k"
  by (auto simp: cell_entries_def)

lemma cell_entries_insert_none:
  "fine_info n = None \<Longrightarrow> cell_entries (insert n S) k = cell_entries S k"
  by (auto simp: cell_entries_def)

lemma cell_entries_fresh:
  "\<forall>n \<in> S. \<forall>i. fine_info n = Some i \<longrightarrow> (ix i, iy i) \<in> K \<Longrightarrow> k \<notin> K \<Longrightarrow> cell_entries S k = {}"
  by (auto simp: cell_entries_def)

lemma groups_ok_sda:
  assumes ok: "groups_ok g S" and fi: "fine_info n = Some i"
  shows "groups_ok (setdefault_append (ix i, iy i) (res i, n) g) (insert n S)"
proof -
  let ?k = "(ix i, iy i)" and ?v = "(res i, n)"
  let ?g = "setdefault_append ?k ?v g"
  from ok have d: "distinct (map fst g)"
    and e: "\<And>k es. (k, es) \<in> set g \<Longrightarrow> es \<noteq> [] \<and> set es = cell_entries S k"
    and c: "\<forall>n \<in> S. \<forall>i. fine_info n = Some i \<longrightarrow> (ix i, iy i) \<in> fst ` set g"
    by (auto simp: groups_ok_def)
  have 1: "distinct (map fst ?g)" using d by (rule sda_distinct)
  have 2: "es \<noteq> [] \<and> set es = cell_entries (insert n S) k" if "(k, es) \<in> set ?g" for k es
  proof -
    from that d consider
        (other) "k \<noteq> ?k" "(k, es) \<in> set g"
      | (old) es0 where "k = ?k" "(?k, es0) \<in> set g" "es = es0 @ [?v]"
      | (new) "k = ?k" "?k \<notin> fst ` set g" "es = [?v]"
      by (auto simp: sda_entries)
    then show ?thesis
    proof cases
      case other
      then show ?thesis using e [of k es] cell_entries_insert_other [OF fi, of k S] by simp
    next
      case old
      then show ?thesis using e [of ?k es0] cell_entries_insert_same [OF fi, of S] by auto
    next
      case new
      then show ?thesis
        using cell_entries_fresh [OF c, of ?k] cell_entries_insert_same [OF fi, of S] by auto
    qed
  qed
  have 3: "\<forall>n' \<in> insert n S. \<forall>j. fine_info n' = Some j \<longrightarrow> (ix j, iy j) \<in> fst ` set ?g"
    using c fi by (auto simp: sda_keys)
  from 1 2 3 show ?thesis unfolding groups_ok_def by blast
qed

lemma groups_ok_skip: "groups_ok g S \<Longrightarrow> fine_info n = None \<Longrightarrow> groups_ok g (insert n S)"
  by (auto simp: groups_ok_def cell_entries_insert_none)

lemma classify_files_groups:
  "classify_files names g a = Inr (g', a') \<Longrightarrow> groups_ok g S \<Longrightarrow> groups_ok g' (S \<union> set names)"
proof (induction names arbitrary: g a S)
  case Nil
  then show ?case by simp
next
  case (Cons n names)
  show ?case
  proof (cases "parse_swisstopo_name n")
    case (Inl e)
    with Cons.prems show ?thesis by simp
  next
    case (Inr r)
    show ?thesis
    proof (cases r)
      case None
      with Inr have fi: "fine_info n = None" by (simp add: fine_info_def)
      from Cons.prems(1) Inr None obtain a1 where "classify_files names g a1 = Inr (g', a')"
        by (auto split: option.splits)
      from Cons.IH [OF this groups_ok_skip [OF Cons.prems(2) fi]] show ?thesis by simp
    next
      case (Some i)
      with Inr have fi: "fine_info n = Some i" by (simp add: fine_info_def)
      from Cons.prems(1) Inr Some
      have "classify_files names (setdefault_append (ix i, iy i) (res i, n) g) a = Inr (g', a')"
        by simp
      from Cons.IH [OF this groups_ok_sda [OF Cons.prems(2) fi]] show ?thesis by simp
    qed
  qed
qed

lemma classify_files_aster:
  "classify_files names g a = Inr (g', a') \<Longrightarrow> a' = a @ List.map_filter aster_entry names"
proof (induction names arbitrary: g a)
  case Nil
  then show ?case by simp
next
  case (Cons n names)
  show ?case
  proof (cases "parse_swisstopo_name n")
    case (Inl e)
    with Cons.prems show ?thesis by simp
  next
    case (Inr r)
    show ?thesis
    proof (cases r)
      case (Some i)
      with Inr Cons.prems Cons.IH [of "setdefault_append (ix i, iy i) (res i, n) g" a]
      show ?thesis by (simp add: aster_entry_def)
    next
      case None
      show ?thesis
      proof (cases "parse_aster_name n")
        case N: None
        with None Inr Cons.prems Cons.IH [of g a]
        show ?thesis by (simp add: aster_entry_def)
      next
        case S: (Some info)
        with None Inr Cons.prems Cons.IH [of g "a @ [(info, n)]"]
        show ?thesis by (simp add: aster_entry_def)
      qed
    qed
  qed
qed

lemma classify_files_no_error:
  "classify_files names g a = Inr (g', a') \<Longrightarrow> n \<in> set names \<Longrightarrow> \<exists>r. parse_swisstopo_name n = Inr r"
  by (induction names arbitrary: g a) (auto split: sum.splits option.splits)

lemma coarse_filter:
  "\<forall>n \<in> set names. \<exists>r. parse_swisstopo_name n = Inr r \<Longrightarrow>
   map snd (filter (\<lambda>(info, p). aster_overlaps info b) (List.map_filter aster_entry names))
     = filter (coarse_hit b) names"
  by (induction names)
     (auto simp: aster_entry_def coarse_hit_def split: option.splits)

lemma DEMTile_new_path: "DEMTile_new fs p = Inr t \<Longrightarrow> path t = p"
  by (auto simp: DEMTile_new_def DEMTile_init_def Let_def split: option.splits sum.splits prod.splits)



lemma str_path_inject: "str_path d n = str_path d n' \<longleftrightarrow> n = n'"
  by (simp add: str_path_def)

lemma sort_key_hd:
  assumes "es \<noteq> []"
  shows "hd (sort_key f es) \<in> set es \<and> (\<forall>e \<in> set es. f (hd (sort_key f es)) \<le> f e)"
proof -
  from assms have ne: "sort_key f es \<noteq> []" by (metis length_sort length_0_conv)
  then obtain x xs where x: "sort_key f es = x # xs" by (cases "sort_key f es") auto
  have "sorted (map f (sort_key f es))" by (rule sorted_sort_key)
  with x have "\<forall>e \<in> set (x # xs). f x \<le> f e" by auto
  moreover have "set (x # xs) = set es" using x set_sort [of f es] by simp
  ultimately show ?thesis using x by auto
qed

lemma finest_min:
  "es \<noteq> [] \<Longrightarrow> \<exists>r. (r, finest es) \<in> set es \<and> (\<forall>e \<in> set es. r \<le> fst e)"
  using sort_key_hd [of es fst] unfolding finest_def
  by (metis prod.collapse)

lemma select_finest_log:
  "select_finest fs d b g ch op = (r, op') \<Longrightarrow>
   \<exists>fl. op' = op @ map (str_path d) fl \<and> set fl \<subseteq> (finest \<circ> snd) ` set g
        \<and> (\<forall>ch'. r = Inr ch' \<longrightarrow>
              fl = map (finest \<circ> snd) g \<and> (\<exists>sub. ch' = ch @ sub \<and> set sub \<subseteq> set fl))"
proof (induction fs d b g ch op rule: select_finest.induct)
  case (1 fs d b ch op)
  then show ?case by auto
next
  case (2 fs d b key entries rest ch op)
  show ?case
  proof (cases "sort_key fst entries")
    case Nil
    with 2 show ?thesis by auto
  next
    case (Cons e tl)
    then have f: "finest entries = snd e" by (simp add: finest_def)
    show ?thesis
    proof (cases "DEMTile_new fs (str_path d (snd e))")
      case (Inl err)
      with 2 Cons have "op' = op @ map (str_path d) [snd e]" and "r = Inl err" by auto
      with f show ?thesis by (intro exI [of _ "[snd e]"]) auto
    next
      case (Inr t)
      let ?ch = "if tile_overlaps t b then ch @ [snd e] else ch"
      from 2 Cons Inr
      have rec: "select_finest fs d b rest ?ch (op @ [str_path d (snd e)]) = (r, op')"
        by (simp add: Let_def)
      from "2.IH" [OF Cons refl Inr rec] obtain fl where
        fl: "op' = (op @ [str_path d (snd e)]) @ map (str_path d) fl"
          "set fl \<subseteq> (finest \<circ> snd) ` set rest"
          "\<forall>ch'. r = Inr ch' \<longrightarrow>
             fl = map (finest \<circ> snd) rest \<and> (\<exists>sub. ch' = ?ch @ sub \<and> set sub \<subseteq> set fl)"
        by blast
      show ?thesis
      proof (rule exI [of _ "snd e # fl"], intro conjI allI impI)
        show "op' = op @ map (str_path d) (snd e # fl)" using fl(1) by simp
        show "set (snd e # fl) \<subseteq> (finest \<circ> snd) ` set ((key, entries) # rest)"
          using fl(2) f by auto
      next
        fix ch' assume "r = Inr ch'"
        with fl(3) obtain sub where
          s: "fl = map (finest \<circ> snd) rest" "ch' = ?ch @ sub" "set sub \<subseteq> set fl" by blast
        show "snd e # fl = map (finest \<circ> snd) ((key, entries) # rest)" using s(1) f by simp
        show "\<exists>sub. ch' = ch @ sub \<and> set sub \<subseteq> set (snd e # fl)"
        proof (cases "tile_overlaps t b")
          case True
          with s show ?thesis by (intro exI [of _ "snd e # sub"]) auto
        next
          case False
          with s show ?thesis by (intro exI [of _ sub]) auto
        qed
      qed
    qed
  qed
qed


lemma open_all_log:
  "open_all fs d ps op = (r, op') \<Longrightarrow>
   \<exists>ql. op' = op @ map (str_path d) ql \<and> set ql \<subseteq> set ps
        \<and> (\<forall>ts. r = Inr ts \<longrightarrow> ql = ps \<and> map path ts = map (str_path d) ps)"
proof (induction ps arbitrary: op r op')
  case Nil
  then show ?case by auto
next
  case (Cons p ps)
  show ?case
  proof (cases "DEMTile_new fs (str_path d p)")
    case (Inl err)
    with Cons.prems have "op' = op @ map (str_path d) [p]" "r = Inl err" by auto
    then show ?thesis by (intro exI [of _ "[p]"]) auto
  next
    case (Inr t)
    obtain r1 op1 where rec: "open_all fs d ps (op @ [str_path d p]) = (r1, op1)"
      by (cases "open_all fs d ps (op @ [str_path d p])")
    from Cons.IH [OF rec] obtain ql where
      ql: "op1 = (op @ [str_path d p]) @ map (str_path d) ql" "set ql \<subseteq> set ps"
        "\<forall>ts. r1 = Inr ts \<longrightarrow> ql = ps \<and> map path ts = map (str_path d) ps"
      by blast
    from Cons.prems Inr rec have o: "op' = op1"
      and rr: "r = (case r1 of Inl err \<Rightarrow> Inl err | Inr ts \<Rightarrow> Inr (t # ts))"
      by (auto split: sum.splits)
    show ?thesis
    proof (rule exI [of _ "p # ql"], intro conjI allI impI)
      show "op' = op @ map (str_path d) (p # ql)" using o ql(1) by simp
      show "set (p # ql) \<subseteq> set (p # ps)" using ql(2) by auto
    next
      fix ts assume "r = Inr ts"
      with rr obtain ts1 where t1: "r1 = Inr ts1" "ts = t # ts1" by (cases r1) auto
      with ql(3) have "ql = ps" "map path ts1 = map (str_path d) ps" by auto
      with t1 DEMTile_new_path [OF Inr]
      show "p # ql = p # ps" "map path ts = map (str_path d) (p # ps)" by auto
    qed
  qed
qed


lemma fine_info_Some: "fine_info n = Some i \<longleftrightarrow> parse_swisstopo_name n = Inr (Some i)"
  by (auto simp: fine_info_def split: sum.splits option.splits)

lemma is_fine_info: "is_fine n \<longleftrightarrow> fine_info n \<noteq> None"
  by (auto simp: is_fine_def fine_info_Some)

lemma groups_ok_empty: "groups_ok [] {}"
  by (simp add: groups_ok_def)

lemma groups_ok_finest:
  assumes ok: "groups_ok g S" and mem: "(k, es) \<in> set g"
  shows "\<exists>j. finest es \<in> S \<and> fine_info (finest es) = Some j \<and> (ix j, iy j) = k
           \<and> (\<forall>n' i'. n' \<in> S \<and> fine_info n' = Some i' \<and> (ix i', iy i') = k \<longrightarrow> res j \<le> res i')"
proof -
  from ok mem have ne: "es \<noteq> []" and se: "set es = cell_entries S k"
    by (auto simp: groups_ok_def)
  from finest_min [OF ne] obtain r where
    r: "(r, finest es) \<in> set es" "\<forall>e \<in> set es. r \<le> fst e" by blast
  from r(1) se obtain j where
    j: "finest es \<in> S" "fine_info (finest es) = Some j" "(ix j, iy j) = k" "r = res j"
    by (auto simp: cell_entries_def)
  have "res j \<le> res i'" if "n' \<in> S" "fine_info n' = Some i'" "(ix i', iy i') = k" for n' i'
  proof -
    from that se have "(res i', n') \<in> set es" by (auto simp: cell_entries_def)
    with r(2) j(4) show ?thesis by fastforce
  qed
  with j show ?thesis by blast
qed

lemma groups_ok_unique:
  assumes ok: "groups_ok g S" and "(k, es) \<in> set g" and "(k, es') \<in> set g"
  shows "es' = es"
proof -
  from ok have "distinct (map fst g)" by (simp add: groups_ok_def)
  with assms(2,3) show ?thesis by (meson eq_key_imp_eq_value)
qed

lemma load_stages:
  obtains
    (box) e where "batch_box coords = Inl e"
      "load_tiles_for_coords fs m coords = \<lparr> returned = Inl e, opened_paths = [], manager = m \<rparr>"
  | (classify) b e where "batch_box coords = Inr b"
      "classify_files (glob_tif fs (dem_folder m)) [] [] = Inl e"
      "load_tiles_for_coords fs m coords = \<lparr> returned = Inl e, opened_paths = [], manager = m \<rparr>"
  | (select) b g a e op where "batch_box coords = Inr b"
      "classify_files (glob_tif fs (dem_folder m)) [] [] = Inr (g, a)"
      "select_finest fs (dem_folder m) b g [] [] = (Inl e, op)"
      "load_tiles_for_coords fs m coords = \<lparr> returned = Inl e, opened_paths = op, manager = m \<rparr>"
  | (reopen) b g a ch op e op' where "batch_box coords = Inr b"
      "classify_files (glob_tif fs (dem_folder m)) [] [] = Inr (g, a)"
      "select_finest fs (dem_folder m) b g [] [] = (Inr ch, op)"
      "open_all fs (dem_folder m) (add_aster a b ch) op = (Inl e, op')"
      "load_tiles_for_coords fs m coords = \<lparr> returned = Inl e, opened_paths = op', manager = m \<rparr>"
  | (loaded) b g a ch op ts op' where "batch_box coords = Inr b"
      "classify_files (glob_tif fs (dem_folder m)) [] [] = Inr (g, a)"
      "select_finest fs (dem_folder m) b g [] [] = (Inr ch, op)"
      "open_all fs (dem_folder m) (add_aster a b ch) op = (Inr ts, op')"
      "load_tiles_for_coords fs m coords =
         \<lparr> returned = Inr ts, opened_paths = op', manager = m\<lparr>tiles := ts\<rparr> \<rparr>"
proof (cases "batch_box coords")
  case (Inl e)
  then show ?thesis using box by (simp add: load_tiles_for_coords_def)
next
  case b: (Inr b)
  show ?thesis
  proof (cases "classify_files (glob_tif fs (dem_folder m)) [] []")
    case (Inl e)
    with b show ?thesis using classify by (simp add: load_tiles_for_coords_def)
  next
    case (Inr ga)
    obtain g a where ga: "ga = (g, a)" by (cases ga)
    obtain r op where sel: "select_finest fs (dem_folder m) b g [] [] = (r, op)"
      by (cases "select_finest fs (dem_folder m) b g [] []")
    show ?thesis
    proof (cases r)
      case (Inl e)
      with b Inr ga sel show ?thesis using select by (simp add: load_tiles_for_coords_def)
    next
      case ch: (Inr ch)
      obtain r' op' where oa: "open_all fs (dem_folder m) (add_aster a b ch) op = (r', op')"
        by (cases "open_all fs (dem_folder m) (add_aster a b ch) op")
      show ?thesis
      proof (cases r')
        case (Inl e)
        with b Inr ga sel ch oa show ?thesis using reopen
          by (simp add: load_tiles_for_coords_def)
      next
        case (Inr ts)
        with b \<open>classify_files (glob_tif fs (dem_folder m)) [] [] = Inr ga\<close> ga sel ch oa
        show ?thesis using loaded by (simp add: load_tiles_for_coords_def)
      qed
    qed
  qed
qed


text \<open>
  Claim C9. A second call on the manager left by a first call, with the same folder
  contents and the same batch, has the outcome of the first call: the same ordered tile
  list (or the same exception), the same files opened in the same order, the same
  manager. The tiles the manager held before a call have no influence on what it returns,
  and of the batch only its box matters: two batches with the same box give the same
  outcome.
\<close>

theorem load_twice_same:
  "load_tiles_for_coords fs (manager (load_tiles_for_coords fs m coords)) coords
     = load_tiles_for_coords fs m coords
   \<and> returned (load_tiles_for_coords fs (m\<lparr>tiles := old\<rparr>) coords)
       = returned (load_tiles_for_coords fs m coords)
   \<and> (batch_box coords' = batch_box coords
        \<longrightarrow> load_tiles_for_coords fs m coords' = load_tiles_for_coords fs m coords)"
proof -
  have "load_tiles_for_coords fs (manager (load_tiles_for_coords fs m coords)) coords
          = load_tiles_for_coords fs m coords"
    by (auto simp: load_tiles_for_coords_def split: sum.splits prod.splits)
  moreover have "returned (load_tiles_for_coords fs (m\<lparr>tiles := old\<rparr>) coords)
          = returned (load_tiles_for_coords fs m coords)"
    by (auto simp: load_tiles_for_coords_def split: sum.splits prod.splits)
  moreover have "load_tiles_for_coords fs m coords' = load_tiles_for_coords fs m coords"
    if "batch_box coords' = batch_box coords"
    using that by (simp add: load_tiles_for_coords_def)
  ultimately show ?thesis by blast
qed

theorem load_twice_same_witness:
  "batch_box [(93 / 2, 81 / 10), (93 / 2, 8), (93 / 2, 79 / 10)]
     = batch_box [(93 / 2, 79 / 10), (93 / 2, 81 / 10)]
   \<and> load_tiles_for_coords aster_fs dem_mgr [(93 / 2, 81 / 10), (93 / 2, 8), (93 / 2, 79 / 10)]
       = load_tiles_for_coords aster_fs dem_mgr [(93 / 2, 79 / 10), (93 / 2, 81 / 10)]"
proof -
  have a: "batch_box [(93 / 2, 81 / 10), (93 / 2, 8), (93 / 2, 79 / 10)]
             = batch_box [(93 / 2, 79 / 10), (93 / 2, 81 / 10)]"
    by (simp add: batch_box_def)
  from load_twice_same [of aster_fs dem_mgr "[(93 / 2, 79 / 10), (93 / 2, 81 / 10)]" "[]"
      "[(93 / 2, 81 / 10), (93 / 2, 8), (93 / 2, 79 / 10)]"] a
  show ?thesis by blast
qed

lemma aster_entry_names:
  "(info, f) \<in> set (List.map_filter aster_entry names) \<Longrightarrow> f \<in> set names \<and> fine_info f = None"
  by (induction names)
     (auto simp: aster_entry_def fine_info_def split: if_splits option.splits)

lemma add_aster_names:
  assumes "f \<in> set (add_aster (List.map_filter aster_entry names) b ch)"
  shows "f \<in> set ch \<or> (f \<in> set names \<and> fine_info f = None)"
  using assms aster_entry_names [of _ f names]
  by (auto simp: add_aster_def split: if_splits)

lemma load_opened_names:
  assumes cls: "classify_files (glob_tif fs (dem_folder m)) [] [] = Inr (g, a)"
    and p: "p \<in> set (opened_paths (load_tiles_for_coords fs m coords))"
  shows "\<exists>f. p = str_path (dem_folder m) f
           \<and> ((\<exists>k es. (k, es) \<in> set g \<and> f = finest es)
               \<or> (f \<in> set (glob_tif fs (dem_folder m)) \<and> fine_info f = None))"
proof -
  let ?d = "dem_folder m" and ?names = "glob_tif fs (dem_folder m)"
  have a: "a = List.map_filter aster_entry ?names"
    using classify_files_aster [OF cls] by simp
  have sel: "\<exists>f. p = str_path ?d f \<and> (\<exists>k es. (k, es) \<in> set g \<and> f = finest es)"
    if "select_finest fs ?d b g [] [] = (r, op)" "p \<in> set op" for b r op
  proof -
    from select_finest_log [OF that(1)] obtain fl where
      "op = [] @ map (str_path ?d) fl" "set fl \<subseteq> (finest \<circ> snd) ` set g" by blast
    with that(2) show ?thesis by fastforce
  qed
  have opn: ?thesis
    if s: "select_finest fs ?d b g [] [] = (Inr ch, op)"
      and o: "open_all fs ?d (add_aster a b ch) op = (r, op')" and "p \<in> set op'" for b ch op r op'
  proof -
    from select_finest_log [OF s] obtain fl where
      fl0: "op = [] @ map (str_path ?d) fl" "set fl \<subseteq> (finest \<circ> snd) ` set g"
        "\<forall>ch'. Inr ch = Inr ch' \<longrightarrow>
           fl = map (finest \<circ> snd) g \<and> (\<exists>sub. ch' = [] @ sub \<and> set sub \<subseteq> set fl)"
      by blast
    then have fl: "op = map (str_path ?d) fl" "set fl \<subseteq> (finest \<circ> snd) ` set g"
      "set ch \<subseteq> set fl"
      by auto
    from open_all_log [OF o] obtain ql where
      ql: "op' = op @ map (str_path ?d) ql" "set ql \<subseteq> set (add_aster a b ch)" by blast
    from \<open>p \<in> set op'\<close> ql(1) consider "p \<in> set op" | f where "f \<in> set ql" "p = str_path ?d f"
      by auto
    then show ?thesis
    proof cases
      case 1
      with sel [OF s] show ?thesis by blast
    next
      case 2
      with ql(2) a add_aster_names [of f ?names b ch]
      consider "f \<in> set ch" | "f \<in> set ?names \<and> fine_info f = None" by blast
      then show ?thesis
      proof cases
        case 1
        with fl obtain k es where "(k, es) \<in> set g" "f = finest es" by fastforce
        with 2 show ?thesis by blast
      next
        case 2
        with \<open>p = str_path ?d f\<close> show ?thesis by blast
      qed
    qed
  qed
  show ?thesis
  proof (cases rule: load_stages [of coords fs m])
    case (box e)
    with p show ?thesis by simp
  next
    case (classify b e)
    with p show ?thesis by simp
  next
    case (select b g' a' e op)
    with cls p sel [of b "Inl e" op] show ?thesis by auto
  next
    case (reopen b g' a' ch op e op')
    with cls p opn [of b ch op "Inl e" op'] show ?thesis by auto
  next
    case (loaded b g' a' ch op ts op')
    with cls p opn [of b ch op "Inr ts" op'] show ?thesis by auto
  qed
qed

lemma load_opened_classified:
  assumes "p \<in> set (opened_paths (load_tiles_for_coords fs m coords))"
  shows "\<exists>g a. classify_files (glob_tif fs (dem_folder m)) [] [] = Inr (g, a)"
proof (cases rule: load_stages [of coords fs m])
  case (box e)
  with assms show ?thesis by simp
next
  case (classify b e)
  with assms show ?thesis by simp
qed auto

lemma classified_groups_ok:
  "classify_files names [] [] = Inr (g, a) \<Longrightarrow> groups_ok g (set names)"
  using classify_files_groups [of names "[]" "[]" g a "{}"] groups_ok_empty by simp

text \<open>
  Claim C2. Take a fine-grid file of the listing. A file whose cell holds a file of
  smaller resolution is never opened, whatever the call does afterwards. When the call
  returns, exactly one file of the cell was opened; its resolution is the smallest of the
  cell.
\<close>

theorem finest_file_per_cell:
  assumes n: "n \<in> set (glob_tif fs (dem_folder m))"
    and i: "parse_swisstopo_name n = Inr (Some i)"
  shows "(\<forall>n' i'. n' \<in> set (glob_tif fs (dem_folder m))
            \<and> parse_swisstopo_name n' = Inr (Some i')
            \<and> ix i' = ix i \<and> iy i' = iy i \<and> res i' < res i
          \<longrightarrow> str_path (dem_folder m) n
                \<notin> set (opened_paths (load_tiles_for_coords fs m coords)))
       \<and> (\<forall>ts. returned (load_tiles_for_coords fs m coords) = Inr ts \<longrightarrow>
            (\<exists>f j. f \<in> set (glob_tif fs (dem_folder m))
               \<and> parse_swisstopo_name f = Inr (Some j) \<and> ix j = ix i \<and> iy j = iy i
               \<and> str_path (dem_folder m) f \<in> set (opened_paths (load_tiles_for_coords fs m coords))
               \<and> (\<forall>n' i'. n' \<in> set (glob_tif fs (dem_folder m))
                      \<and> parse_swisstopo_name n' = Inr (Some i')
                      \<and> ix i' = ix i \<and> iy i' = iy i
                    \<longrightarrow> res j \<le> res i'
                        \<and> (str_path (dem_folder m) n'
                              \<in> set (opened_paths (load_tiles_for_coords fs m coords))
                            \<longrightarrow> n' = f))))"
proof -
  let ?d = "dem_folder m" and ?names = "glob_tif fs (dem_folder m)"
  let ?opened = "opened_paths (load_tiles_for_coords fs m coords)"
  have fi: "fine_info n = Some i" using i by (simp add: fine_info_Some)
  \<comment> \<open>an opened file of a cell is the finest entry of the group of the cell\<close>
  have opened_finest: "\<exists>es. ((ix i', iy i'), es) \<in> set g \<and> n' = finest es"
    if "classify_files ?names [] [] = Inr (g, a)" "str_path ?d n' \<in> set ?opened"
      "fine_info n' = Some i'" for g a n' i'
  proof -
    from load_opened_names [OF that(1,2)] that(3) obtain k es where
      kes: "(k, es) \<in> set g" "n' = finest es" by (auto simp: str_path_inject)
    from groups_ok_finest [OF classified_groups_ok [OF that(1)] kes(1)] kes(2) that(3)
    have "k = (ix i', iy i')" by auto
    with kes show ?thesis by blast
  qed
  have A: "str_path ?d n \<notin> set ?opened"
    if "n' \<in> set ?names" "parse_swisstopo_name n' = Inr (Some i')"
      "ix i' = ix i" "iy i' = iy i" "res i' < res i" for n' i'
  proof
    assume op: "str_path ?d n \<in> set ?opened"
    from load_opened_classified [OF op] obtain g a where
      cls: "classify_files ?names [] [] = Inr (g, a)" by blast
    from opened_finest [OF cls op fi] obtain es where
      es: "((ix i, iy i), es) \<in> set g" "n = finest es" by blast
    from groups_ok_finest [OF classified_groups_ok [OF cls] es(1)] es(2) fi
    have "\<forall>n' i'. n' \<in> set ?names \<and> fine_info n' = Some i' \<and> (ix i', iy i') = (ix i, iy i)
            \<longrightarrow> res i \<le> res i'" by auto
    with that(1-4) have "res i \<le> res i'" by (simp add: fine_info_Some)
    with that(5) show False by simp
  qed
  have B: "\<exists>f j. f \<in> set ?names \<and> parse_swisstopo_name f = Inr (Some j) \<and> ix j = ix i \<and> iy j = iy i
             \<and> str_path ?d f \<in> set ?opened
             \<and> (\<forall>n' i'. n' \<in> set ?names \<and> parse_swisstopo_name n' = Inr (Some i')
                    \<and> ix i' = ix i \<and> iy i' = iy i
                  \<longrightarrow> res j \<le> res i' \<and> (str_path ?d n' \<in> set ?opened \<longrightarrow> n' = f))"
    if ret: "returned (load_tiles_for_coords fs m coords) = Inr ts" for ts
  proof (cases rule: load_stages [of coords fs m])
    case (loaded b g a ch op ts' op')
    note cls = loaded(2)
    have ok: "groups_ok g (set ?names)" by (rule classified_groups_ok [OF cls])
    with n fi have "(ix i, iy i) \<in> fst ` set g" by (auto simp: groups_ok_def)
    then obtain es where es: "((ix i, iy i), es) \<in> set g" by auto
    from groups_ok_finest [OF ok es] obtain j where
      j: "finest es \<in> set ?names" "fine_info (finest es) = Some j" "(ix j, iy j) = (ix i, iy i)"
        "\<forall>n' i'. n' \<in> set ?names \<and> fine_info n' = Some i' \<and> (ix i', iy i') = (ix i, iy i)
           \<longrightarrow> res j \<le> res i'"
      by blast
    from select_finest_log [OF loaded(3)] have "op = map (str_path ?d) (map (finest \<circ> snd) g)"
      by auto
    with es have "str_path ?d (finest es) \<in> set op" by force
    moreover from open_all_log [OF loaded(4)] have "set op \<subseteq> set op'" by auto
    ultimately have opened: "str_path ?d (finest es) \<in> set ?opened" using loaded(5) by auto
    have uniq: "n' = finest es"
      if "fine_info n' = Some i'" "ix i' = ix i" "iy i' = iy i" "str_path ?d n' \<in> set ?opened"
      for n' i'
    proof -
      from opened_finest [OF cls that(4,1)] that(2,3) obtain es' where
        "((ix i, iy i), es') \<in> set g" "n' = finest es'" by auto
      with groups_ok_unique [OF ok es] show ?thesis by auto
    qed
    show ?thesis
    proof (intro exI [of _ "finest es"] exI [of _ j] conjI allI impI)
      show "finest es \<in> set ?names" by (rule j(1))
      show "parse_swisstopo_name (finest es) = Inr (Some j)" using j(2) by (simp add: fine_info_Some)
      show "ix j = ix i" "iy j = iy i" using j(3) by auto
      show "str_path ?d (finest es) \<in> set ?opened" by (rule opened)
    next
      fix n' i'
      assume h: "n' \<in> set ?names \<and> parse_swisstopo_name n' = Inr (Some i')
        \<and> ix i' = ix i \<and> iy i' = iy i"
      then show "res j \<le> res i'" using j(4) by (auto simp: fine_info_Some)
      assume "str_path ?d n' \<in> set ?opened"
      with h uniq [of n' i'] show "n' = finest es" by (auto simp: fine_info_Some)
    qed
  qed (use ret in auto)
  from A B show ?thesis by blast
qed

theorem finest_file_per_cell_witness:
  "''swissalti3d_2019_2600-1199_2_2056_5728.tif'' \<in> set (glob_tif alps_fs (dem_folder dem_mgr))
   \<and> parse_swisstopo_name ''swissalti3d_2019_2600-1199_2_2056_5728.tif''
       = Inr (Some \<lparr> ix = 2600, iy = 1199, res = 2 \<rparr>)
   \<and> ''swissalti3d_2019_2600-1199_0.5_2056_5728.tif'' \<in> set (glob_tif alps_fs (dem_folder dem_mgr))
   \<and> parse_swisstopo_name ''swissalti3d_2019_2600-1199_0.5_2056_5728.tif''
       = Inr (Some \<lparr> ix = 2600, iy = 1199, res = 1 / 2 \<rparr>)
   \<and> str_path (dem_folder dem_mgr) ''swissalti3d_2019_2600-1199_2_2056_5728.tif''
       \<notin> set (opened_paths (load_tiles_for_coords alps_fs dem_mgr [(9399 / 200, 1501 / 200)]))"
proof -
  let ?coarse = "''swissalti3d_2019_2600-1199_2_2056_5728.tif''"
  let ?fine = "''swissalti3d_2019_2600-1199_0.5_2056_5728.tif''"
  have a: "?coarse \<in> set (glob_tif alps_fs (dem_folder dem_mgr))"
    by (simp add: alps_fs_def dem_mgr_def)
  have b: "parse_swisstopo_name ?coarse = Inr (Some \<lparr> ix = 2600, iy = 1199, res = 2 \<rparr>)"
    by (simp add: parse_eval)
  have c: "?fine \<in> set (glob_tif alps_fs (dem_folder dem_mgr))"
    by (simp add: alps_fs_def dem_mgr_def)
  have d: "parse_swisstopo_name ?fine = Inr (Some \<lparr> ix = 2600, iy = 1199, res = 1 / 2 \<rparr>)"
    by (simp add: parse_eval)
  from finest_file_per_cell [OF a b, of "[(9399 / 200, 1501 / 200)]"]
  have "\<forall>n' i'. n' \<in> set (glob_tif alps_fs (dem_folder dem_mgr))
            \<and> parse_swisstopo_name n' = Inr (Some i')
            \<and> ix i' = ix \<lparr> ix = 2600, iy = 1199, res = 2 \<rparr>
            \<and> iy i' = iy \<lparr> ix = 2600, iy = 1199, res = 2 \<rparr>
            \<and> res i' < res \<lparr> ix = 2600, iy = 1199, res = 2 \<rparr>
          \<longrightarrow> str_path (dem_folder dem_mgr) ?coarse
                \<notin> set (opened_paths (load_tiles_for_coords alps_fs dem_mgr [(9399 / 200, 1501 / 200)]))"
    by (rule conjunct1)
  from this [rule_format, of ?fine "\<lparr> ix = 2600, iy = 1199, res = 1 / 2 \<rparr>"] a b c d
  show ?thesis by simp
qed

lemma coarse_hit_not_fine: "coarse_hit b n \<Longrightarrow> \<not> is_fine n"
  by (simp add: coarse_hit_def is_fine_def)

text \<open>
  Claim C3. Let the call return the tiles \<open>ts\<close> for a batch with box \<open>b\<close>. When a fine-grid
  tile is loaded, every file the call opened is a fine-grid file of the listing: no
  coarse-grid file is opened or loaded. When no fine-grid tile is loaded, the loaded tiles
  are the files of the coarse-grid names of the listing whose one-degree cell overlaps
  \<open>b\<close>, in listing order; so it is when the listing has no fine-grid name.
\<close>

theorem coarse_fallback:
  assumes ret: "returned (load_tiles_for_coords fs m coords) = Inr ts"
    and box: "batch_box coords = Inr b"
  shows "((\<exists>t\<in>set ts. \<exists>n. path t = str_path (dem_folder m) n \<and> is_fine n) \<longrightarrow>
            (\<forall>p\<in>set (opened_paths (load_tiles_for_coords fs m coords)).
               \<exists>n\<in>set (glob_tif fs (dem_folder m)). p = str_path (dem_folder m) n \<and> is_fine n))
       \<and> (\<not> (\<exists>t\<in>set ts. \<exists>n. path t = str_path (dem_folder m) n \<and> is_fine n) \<longrightarrow>
            map path ts
              = map (str_path (dem_folder m)) (filter (coarse_hit b) (glob_tif fs (dem_folder m))))
       \<and> ((\<forall>n\<in>set (glob_tif fs (dem_folder m)). \<not> is_fine n) \<longrightarrow>
            map path ts
              = map (str_path (dem_folder m)) (filter (coarse_hit b) (glob_tif fs (dem_folder m))))"
proof (cases rule: load_stages [of coords fs m])
  case (loaded b' g a ch op ts' op')
  let ?d = "dem_folder m" and ?names = "glob_tif fs (dem_folder m)"
  let ?fine_loaded = "\<exists>t\<in>set ts. \<exists>n. path t = str_path ?d n \<and> is_fine n"
  from loaded(1,5) ret box have eq: "b' = b" "ts' = ts" by simp_all
  note cls = loaded(2)
  have ok: "groups_ok g (set ?names)" by (rule classified_groups_ok [OF cls])
  have a: "a = List.map_filter aster_entry ?names" using classify_files_aster [OF cls] by simp
  from select_finest_log [OF loaded(3)] obtain fl where
    fl0: "op = [] @ map (str_path ?d) fl" "set fl \<subseteq> (finest \<circ> snd) ` set g"
      "\<forall>ch'. Inr ch = Inr ch' \<longrightarrow>
         fl = map (finest \<circ> snd) g \<and> (\<exists>sub. ch' = [] @ sub \<and> set sub \<subseteq> set fl)"
    by blast
  then have fl: "op = map (str_path ?d) fl" "set fl \<subseteq> (finest \<circ> snd) ` set g" "set ch \<subseteq> set fl"
    by auto
  have fine_fl: "f \<in> set ?names \<and> is_fine f" if "f \<in> set fl" for f
  proof -
    from that fl(2) obtain k es where "(k, es) \<in> set g" "f = finest es" by fastforce
    with groups_ok_finest [OF ok this(1)] show ?thesis by (auto simp: is_fine_info)
  qed
  from open_all_log [OF loaded(4)] eq have
    op': "op' = op @ map (str_path ?d) (add_aster a b ch)"
    and paths: "map path ts = map (str_path ?d) (add_aster a b ch)"
    by auto
  have opened: "opened_paths (load_tiles_for_coords fs m coords) = op'" using loaded(5) by simp
  show ?thesis
  proof (cases "ch = []")
    case True
    have "\<forall>n \<in> set ?names. \<exists>r. parse_swisstopo_name n = Inr r"
      using classify_files_no_error [OF cls] by blast
    from coarse_filter [OF this, of b] True a
    have sel: "add_aster a b ch = filter (coarse_hit b) ?names" by (simp add: add_aster_def)
    with paths have res: "map path ts = map (str_path ?d) (filter (coarse_hit b) ?names)" by simp
    have "\<not> ?fine_loaded"
    proof
      assume ?fine_loaded
      then obtain t n where t: "t \<in> set ts" "path t = str_path ?d n" "is_fine n" by blast
      from t(1) have "path t \<in> set (map path ts)" by simp
      with res t(2) have "coarse_hit b n" by (auto simp: str_path_inject)
      with t(3) coarse_hit_not_fine show False by blast
    qed
    with res show ?thesis by blast
  next
    case False
    then have sel: "add_aster a b ch = ch" by (simp add: add_aster_def)
    from False obtain c where c: "c \<in> set ch" by (cases ch) auto
    with paths sel have "str_path ?d c \<in> set (map path ts)" by simp
    then obtain t where t: "t \<in> set ts" "path t = str_path ?d c" by auto
    from c fl(3) fine_fl have cf: "c \<in> set ?names" "is_fine c" by auto
    with t have loaded_fine: ?fine_loaded by blast
    have all: "\<exists>n\<in>set ?names. p = str_path ?d n \<and> is_fine n"
      if "p \<in> set (opened_paths (load_tiles_for_coords fs m coords))" for p
    proof -
      from that opened op' sel fl(1) have "p \<in> str_path ?d ` (set fl \<union> set ch)" by auto
      with fl(3) fine_fl show ?thesis by blast
    qed
    from cf have "\<not> (\<forall>n\<in>set ?names. \<not> is_fine n)" by blast
    with loaded_fine all show ?thesis by blast
  qed
qed (use ret in auto)

lemma aster_names_swiss:
  "parse_swisstopo_name ''ASTGTMV003_N46E007_dem.tif'' = Inr None"
  "parse_swisstopo_name ''ASTGTMV003_N46E008_dem.tif'' = Inr None"
  "parse_swisstopo_name ''ASTGTMV003_N45E007_dem.tif'' = Inr None"
  "parse_swisstopo_name ''overview.tif'' = Inr None"
  by (simp_all add: parse_eval)

lemma aster_names_aster:
  "parse_aster_name ''ASTGTMV003_N46E007_dem.tif''
     = Some \<lparr>a_minlat = 46, a_maxlat = 47, a_minlon = 7, a_maxlon = 8, a_res = 30\<rparr>"
  "parse_aster_name ''ASTGTMV003_N46E008_dem.tif''
     = Some \<lparr>a_minlat = 46, a_maxlat = 47, a_minlon = 8, a_maxlon = 9, a_res = 30\<rparr>"
  "parse_aster_name ''ASTGTMV003_N45E007_dem.tif''
     = Some \<lparr>a_minlat = 45, a_maxlat = 46, a_minlon = 7, a_maxlon = 8, a_res = 30\<rparr>"
  "parse_aster_name ''overview.tif'' = None"
  by (simp_all add: parse_eval)

lemma aster_names_coarse:
  "filter (coarse_hit (93 / 2, 93 / 2, 79 / 10, 81 / 10)) aster_names
     = [''ASTGTMV003_N46E007_dem.tif'', ''ASTGTMV003_N46E008_dem.tif'']"
  by (simp add: aster_names_def coarse_hit_def aster_overlaps_def aster_names_swiss aster_names_aster)

lemma aster_names_not_fine: "\<forall>n\<in>set aster_names. \<not> is_fine n"
  by (simp add: aster_names_def is_fine_def aster_names_swiss)

theorem coarse_fallback_witness:
  "returned (load_tiles_for_coords aster_fs dem_mgr [(93 / 2, 79 / 10), (93 / 2, 81 / 10)])
     = Inr [void_tile, good_tile]
   \<and> batch_box [(93 / 2, 79 / 10), (93 / 2, 81 / 10)] = Inr (93 / 2, 93 / 2, 79 / 10, 81 / 10)
   \<and> glob_tif aster_fs (dem_folder dem_mgr)
       = [''ASTGTMV003_N46E007_dem.tif'', ''ASTGTMV003_N46E008_dem.tif'',
          ''ASTGTMV003_N45E007_dem.tif'', ''overview.tif'']
   \<and> \<not> is_fine ''ASTGTMV003_N46E007_dem.tif'' \<and> \<not> is_fine ''ASTGTMV003_N46E008_dem.tif''
   \<and> \<not> is_fine ''ASTGTMV003_N45E007_dem.tif'' \<and> \<not> is_fine ''overview.tif''
   \<and> map path [void_tile, good_tile]
       = map (str_path (dem_folder dem_mgr))
           [''ASTGTMV003_N46E007_dem.tif'', ''ASTGTMV003_N46E008_dem.tif'']"
proof -
  have a: "returned (load_tiles_for_coords aster_fs dem_mgr [(93 / 2, 79 / 10), (93 / 2, 81 / 10)])
             = Inr [void_tile, good_tile]"
    by (simp add: aster_load)
  have b: "batch_box [(93 / 2, 79 / 10), (93 / 2, 81 / 10)] = Inr (93 / 2, 93 / 2, 79 / 10, 81 / 10)"
    by (simp add: batch_box_def)
  have c: "glob_tif aster_fs (dem_folder dem_mgr) = aster_names"
    by (simp add: aster_fs_def dem_mgr_def)
  have d: "\<forall>n\<in>set (glob_tif aster_fs (dem_folder dem_mgr)). \<not> is_fine n"
    unfolding c by (rule aster_names_not_fine)
  from coarse_fallback [OF a b] d
  have "map path [void_tile, good_tile]
          = map (str_path (dem_folder dem_mgr))
              (filter (coarse_hit (93 / 2, 93 / 2, 79 / 10, 81 / 10))
                 (glob_tif aster_fs (dem_folder dem_mgr)))"
    by blast
  then have "map path [void_tile, good_tile]
          = map (str_path (dem_folder dem_mgr))
              [''ASTGTMV003_N46E007_dem.tif'', ''ASTGTMV003_N46E008_dem.tif'']"
    unfolding c aster_names_coarse .
  moreover from d have "\<not> is_fine ''ASTGTMV003_N46E007_dem.tif''"
    "\<not> is_fine ''ASTGTMV003_N46E008_dem.tif''" "\<not> is_fine ''ASTGTMV003_N45E007_dem.tif''"
    "\<not> is_fine ''overview.tif''"
    unfolding c aster_names_def by simp_all
  moreover have "glob_tif aster_fs (dem_folder dem_mgr)
       = [''ASTGTMV003_N46E007_dem.tif'', ''ASTGTMV003_N46E008_dem.tif'',
          ''ASTGTMV003_N45E007_dem.tif'', ''overview.tif'']"
    unfolding c aster_names_def ..
  ultimately show ?thesis using a b by blast
qed




subsection \<open>Failures of the collaborators and of the classifier\<close>

text \<open>
  Claim C5, as amended. When the tile needs reprojection and \<^verbatim>\<open>TransformPoint\<close> fails on
  the point, the sample raises that failure, and so does the query when it reaches the
  tile: the tile contains the point and every containing tile before it sampled "no data".
\<close>

theorem reprojection_failure_raises:
  assumes "need_transform t" and "from_wgs84 (ds t) lon lat = None"
  shows "tile_get_elevation t lat lon = Inl TransformFailed
         \<and> (tiles m = pre @ t # post
              \<and> (\<forall>u\<in>set pre. bbox_contains u lat lon \<longrightarrow> tile_get_elevation u lat lon = Inr None)
              \<and> bbox_contains t lat lon
            \<longrightarrow> get_elevation m lat lon = Inl TransformFailed)"
proof -
  from assms have s: "tile_get_elevation t lat lon = Inl TransformFailed"
    by (simp add: tile_get_elevation_def native_xy_def)
  then show ?thesis by (auto simp: get_elevation_def probe_tiles_skip)
qed

theorem reprojection_failure_raises_witness:
  "need_transform alps_tile
   \<and> from_wgs84 (ds alps_tile) (1501 / 200) (94000001 / 2000000) = None
   \<and> tiles (manager (load_tiles_for_coords alps_fs dem_mgr [(9399 / 200, 1501 / 200)]))
       = [] @ alps_tile # []
   \<and> bbox_contains alps_tile (94000001 / 2000000) (1501 / 200)
   \<and> get_elevation (manager (load_tiles_for_coords alps_fs dem_mgr [(9399 / 200, 1501 / 200)]))
         (94000001 / 2000000) (1501 / 200) = Inl TransformFailed"
proof -
  let ?m = "manager (load_tiles_for_coords alps_fs dem_mgr [(9399 / 200, 1501 / 200)])"
  have a: "need_transform alps_tile" by (simp add: alps_tile_def)
  have b: "from_wgs84 (ds alps_tile) (1501 / 200) (94000001 / 2000000) = None"
    by (simp add: alps_tile_def lv_raster_def)
  have c: "tiles ?m = [] @ alps_tile # []" by (simp add: alps_load)
  from reprojection_failure_raises [OF a b, of ?m "[]" "[]"] a b c alps_tile_margin_contains
  show ?thesis by simp
qed

text \<open>
  The claim as stated fails: \<open>alps_tile\<close> is the tile that opening the file of the example
  folder gives; the point lies in its footprint, in the margin of one millionth of a
  degree, where the projection is not defined, and the sample is an exception, not
  "no data".
\<close>

theorem reprojection_failure_counterexample:
  "DEMTile_new alps_fs ''dem/swissalti3d_2019_2600-1199_0.5_2056_5728.tif'' = Inr alps_tile
   \<and> need_transform alps_tile
   \<and> from_wgs84 (ds alps_tile) (1501 / 200) (94000001 / 2000000) = None
   \<and> bbox_contains alps_tile (94000001 / 2000000) (1501 / 200)
   \<and> tile_get_elevation alps_tile (94000001 / 2000000) (1501 / 200) \<noteq> Inr None
   \<and> get_elevation \<lparr> dem_folder = ''dem'', tiles = [alps_tile] \<rparr>
        (94000001 / 2000000) (1501 / 200) = Inl TransformFailed"
proof -
  have "need_transform alps_tile" by (simp add: alps_tile_def)
  moreover have "from_wgs84 (ds alps_tile) (1501 / 200) (94000001 / 2000000) = None"
    by (simp add: alps_tile_def lv_raster_def)
  ultimately show ?thesis
    by (simp add: alps_tile_new alps_tile_margin_sample alps_tile_margin_contains
        get_elevation_def)
qed

text \<open>
  Claim C6, at a failing input. The fine-grid pattern accepts any run of digits and dots
  as the resolution; on the name below the run is \<^verbatim>\<open>0.5.1\<close>, \<^verbatim>\<open>float\<close> raises ValueError,
  and the exception leaves the loop over the listing and the whole call.
\<close>

theorem malformed_resolution_raises:
  "rmatch swisstopo_pattern ''swissalti3d_2019_2600-1199_0.5.1_2056_5728.tif''
     = Some [''2600'', ''1199'', ''0.5.1'']
   \<and> parse_swisstopo_name ''swissalti3d_2019_2600-1199_0.5.1_2056_5728.tif'' = Inl ValueError
   \<and> returned (load_tiles_for_coords odd_fs dem_mgr [(93 / 2, 15 / 2)]) = Inl ValueError"
  by (simp add: odd_load) (simp add: parse_eval)

end
